theory Spec2Isabelle
  imports Main
begin

section \<open>Python values and errors\<close>

text \<open>
  The module \<^verbatim>\<open>requests/structures.py\<close> defines three classes:
  \<^verbatim>\<open>CaseInsensitiveDict\<close>, \<^verbatim>\<open>LookupDict\<close> and \<^verbatim>\<open>NetworkTraffic\<close>.
  An exception raised by a method is a value \<open>Inl e\<close> of the result; a normal return is
  \<open>Inr x\<close>. \<^verbatim>\<open>KeyError\<close> carries the key that the dictionary was asked for.
\<close>

datatype error = KeyError string | TypeError | AttributeError

text \<open>
  A binary special method either returns a value or the singleton
  \<^verbatim>\<open>NotImplemented\<close>, which is an ordinary return value, not an exception.
\<close>

datatype 'a dispatch = NotImplemented | Returned 'a

subsection \<open>\<^verbatim>\<open>str.lower\<close>\<close>

text \<open>
  Keys are strings. A \<open>char\<close> is one byte, and \<open>lower\<close> maps the ASCII capital letters
  (codes 65 to 90) to the small ones, as \<^verbatim>\<open>str.lower\<close> does on ASCII text such as HTTP
  header names. No general theorem below unfolds \<open>lower\<close>: each one holds for every
  folding function and uses only equations \<open>lower k1 = lower k2\<close>.
\<close>

definition lower_char :: "char \<Rightarrow> char" where
  "lower_char c =
     (let n = (of_char c :: nat) in if 65 \<le> n \<and> n \<le> 90 then char_of (n + 32) else c)"

definition lower :: "string \<Rightarrow> string" where
  "lower s = map lower_char s"

subsection \<open>\<^verbatim>\<open>dict\<close> and \<^verbatim>\<open>OrderedDict\<close>\<close>

text \<open>
  A dictionary with string keys is the list of its items in insertion order. Assigning to
  a key that is present replaces the value where the key stands; assigning to a new key
  appends an item. Reading or deleting a missing key raises \<^verbatim>\<open>KeyError\<close>.
\<close>

type_synonym 'a pydict = "(string \<times> 'a) list"

fun dict_setitem :: "'a pydict \<Rightarrow> string \<Rightarrow> 'a \<Rightarrow> 'a pydict" where
  "dict_setitem [] k a = [(k, a)]"
| "dict_setitem (p # d) k a = (if fst p = k then (k, a) # d else p # dict_setitem d k a)"

fun dict_getitem :: "'a pydict \<Rightarrow> string \<Rightarrow> error + 'a" where
  "dict_getitem [] k = Inl (KeyError k)"
| "dict_getitem (p # d) k = (if fst p = k then Inr (snd p) else dict_getitem d k)"

fun dict_delitem :: "'a pydict \<Rightarrow> string \<Rightarrow> error + 'a pydict" where
  "dict_delitem [] k = Inl (KeyError k)"
| "dict_delitem (p # d) k =
     (if fst p = k then Inr d
      else (case dict_delitem d k of Inl e \<Rightarrow> Inl e | Inr d' \<Rightarrow> Inr (p # d')))"

definition dict_get :: "'a pydict \<Rightarrow> string \<Rightarrow> 'a \<Rightarrow> 'a" where
  \<comment> \<open>\<^verbatim>\<open>dict.get(key, default)\<close>\<close>
  "dict_get d k dflt = (case dict_getitem d k of Inl e \<Rightarrow> dflt | Inr a \<Rightarrow> a)"

definition dict_values :: "'a pydict \<Rightarrow> 'a list" where
  "dict_values d = map snd d"

fun dict_update :: "'a pydict \<Rightarrow> (string \<times> 'a) list \<Rightarrow> 'a pydict" where
  "dict_update d [] = d"
| "dict_update d (p # ps) = dict_update (dict_setitem d (fst p) (snd p)) ps"

definition dict_of :: "(string \<times> 'a) list \<Rightarrow> 'a pydict" where
  \<comment> \<open>\<^verbatim>\<open>dict(pairs)\<close>: the pairs are assigned from left to right\<close>
  "dict_of ps = dict_update [] ps"

text \<open>
  \<^verbatim>\<open>d1 == d2\<close> on dictionaries: the same number of items, and every key of \<open>d1\<close> is
  a key of \<open>d2\<close> with an equal value.
\<close>

fun dict_all_in :: "'a pydict \<Rightarrow> 'a pydict \<Rightarrow> bool" where
  "dict_all_in [] d2 = True"
| "dict_all_in (p # d1) d2 = (dict_getitem d2 (fst p) = Inr (snd p) \<and> dict_all_in d1 d2)"

definition dict_eq :: "'a pydict \<Rightarrow> 'a pydict \<Rightarrow> bool" where
  "dict_eq d1 d2 = (length d1 = length d2 \<and> dict_all_in d1 d2)"

subsection \<open>Objects on the heap\<close>

text \<open>
  Instances are mutable objects reached through references. A heap is the list of the
  objects allocated so far and a reference is a position in it; a new object goes to the
  end, so that its reference differs from every reference in use. A reference held by a
  Python program always points to an allocated object.
\<close>

type_synonym ref = nat

type_synonym 'o heap = "'o list"

definition allocated :: "'o heap \<Rightarrow> ref \<Rightarrow> bool" where
  "allocated h r = (r < length h)"

definition alloc :: "'o heap \<Rightarrow> 'o \<Rightarrow> ref \<times> 'o heap" where
  "alloc h obj = (length h, h @ [obj])"

section \<open>\<^verbatim>\<open>CaseInsensitiveDict\<close>\<close>

text \<open>
  The instance has one attribute, \<^verbatim>\<open>_store\<close>, an \<^verbatim>\<open>OrderedDict\<close> from the
  lowercased key to the pair of the key as it was written and the value.
\<close>

record 'v CaseInsensitiveDict =
  store :: "(string \<times> 'v) pydict"

text \<open>
  The values a constructor argument or the right operand of \<^verbatim>\<open>==\<close> may be:
  \<^verbatim>\<open>None\<close>, a number, a list of key-value pairs, a plain \<^verbatim>\<open>dict\<close> (its items, with
  distinct keys), or another \<^verbatim>\<open>CaseInsensitiveDict\<close>. The last two are instances of
  \<^verbatim>\<open>Mapping\<close>.
\<close>

datatype 'v pyvalue =
    PyNone
  | PyInt int
  | PyPairs "(string \<times> 'v) list"
  | PyDict "(string \<times> 'v) list"
  | PyCID "'v CaseInsensitiveDict"

fun is_Mapping :: "'v pyvalue \<Rightarrow> bool" where
  "is_Mapping (PyDict d) = True"
| "is_Mapping (PyCID c) = True"
| "is_Mapping other = False"

definition cid_setitem :: "'v CaseInsensitiveDict \<Rightarrow> string \<Rightarrow> 'v \<Rightarrow> 'v CaseInsensitiveDict" where
  "cid_setitem self key val = self\<lparr>store := dict_setitem (store self) (lower key) (key, val)\<rparr>"

definition cid_getitem :: "'v CaseInsensitiveDict \<Rightarrow> string \<Rightarrow> error + 'v" where
  "cid_getitem self key =
     (case dict_getitem (store self) (lower key) of Inl e \<Rightarrow> Inl e | Inr keyval \<Rightarrow> Inr (snd keyval))"

definition cid_delitem :: "'v CaseInsensitiveDict \<Rightarrow> string \<Rightarrow> error + 'v CaseInsensitiveDict" where
  "cid_delitem self key =
     (case dict_delitem (store self) (lower key) of
        Inl e \<Rightarrow> Inl e
      | Inr d \<Rightarrow> Inr (self\<lparr>store := d\<rparr>))"

definition cid_iter :: "'v CaseInsensitiveDict \<Rightarrow> string list" where
  "cid_iter self = map (\<lambda>(casedkey, mappedvalue). casedkey) (dict_values (store self))"

definition cid_len :: "'v CaseInsensitiveDict \<Rightarrow> nat" where
  "cid_len self = length (store self)"

definition lower_items :: "'v CaseInsensitiveDict \<Rightarrow> (string \<times> 'v) list" where
  "lower_items self = map (\<lambda>(lowerkey, keyval). (lowerkey, snd keyval)) (store self)"

subsection \<open>Methods inherited from \<^verbatim>\<open>MutableMapping\<close>\<close>

text \<open>
  \<^verbatim>\<open>__contains__\<close> tries \<^verbatim>\<open>self[key]\<close> and answers \<^verbatim>\<open>False\<close> on \<^verbatim>\<open>KeyError\<close>; any other
  exception is not caught. \<^verbatim>\<open>keys()\<close> iterates the mapping; \<^verbatim>\<open>items()\<close> iterates it and
  reads \<^verbatim>\<open>self[key]\<close> for every key.
\<close>

definition cid_contains :: "'v CaseInsensitiveDict \<Rightarrow> string \<Rightarrow> error + bool" where
  "cid_contains self key =
     (case cid_getitem self key of
        Inl (KeyError k) \<Rightarrow> Inr False
      | Inl e \<Rightarrow> Inl e
      | Inr v \<Rightarrow> Inr True)"

definition cid_keys :: "'v CaseInsensitiveDict \<Rightarrow> string list" where
  "cid_keys self = cid_iter self"

fun read_all :: "'v CaseInsensitiveDict \<Rightarrow> string list \<Rightarrow> error + (string \<times> 'v) list" where
  "read_all m [] = Inr []"
| "read_all m (key # keys) =
     (case cid_getitem m key of
        Inl e \<Rightarrow> Inl e
      | Inr v \<Rightarrow> (case read_all m keys of Inl e \<Rightarrow> Inl e | Inr ps \<Rightarrow> Inr ((key, v) # ps)))"

definition cid_items :: "'v CaseInsensitiveDict \<Rightarrow> error + (string \<times> 'v) list" where
  "cid_items self = read_all self (cid_iter self)"

text \<open>
  \<^verbatim>\<open>update(other, **kwds)\<close>: for a \<^verbatim>\<open>Mapping\<close>, \<^verbatim>\<open>self[key] = other[key]\<close> for every key
  of \<open>other\<close>; for any other iterable, \<^verbatim>\<open>self[key] = value\<close> for every pair; then the
  same for the keyword arguments. A value that cannot be iterated raises
  \<^verbatim>\<open>TypeError\<close>.
\<close>

fun set_all :: "'v CaseInsensitiveDict \<Rightarrow> (string \<times> 'v) list \<Rightarrow> 'v CaseInsensitiveDict" where
  "set_all self [] = self"
| "set_all self (p # ps) = set_all (cid_setitem self (fst p) (snd p)) ps"

fun cid_update ::
  "'v CaseInsensitiveDict \<Rightarrow> 'v pyvalue \<Rightarrow> 'v pydict \<Rightarrow> error + 'v CaseInsensitiveDict" where
  "cid_update self (PyDict d) kwargs = Inr (set_all (set_all self d) kwargs)"
| "cid_update self (PyCID c) kwargs =
     (case cid_items c of
        Inl e \<Rightarrow> Inl e
      | Inr ps \<Rightarrow> Inr (set_all (set_all self ps) kwargs))"
| "cid_update self (PyPairs ps) kwargs = Inr (set_all (set_all self ps) kwargs)"
| "cid_update self other kwargs = Inl TypeError"

subsection \<open>Constructor, equality and copy\<close>

definition cid_init :: "'v pyvalue \<Rightarrow> 'v pydict \<Rightarrow> error + 'v CaseInsensitiveDict" where
  "cid_init data kwargs =
     (let self = \<lparr>store = []\<rparr>;
          data' = (case data of PyNone \<Rightarrow> PyDict [] | other \<Rightarrow> data)
      in cid_update self data' kwargs)"

definition cid_eq :: "'v CaseInsensitiveDict \<Rightarrow> 'v pyvalue \<Rightarrow> error + bool dispatch" where
  "cid_eq self other =
     (if is_Mapping other then
        (case cid_init other [] of
           Inl e \<Rightarrow> Inl e
         | Inr other' \<Rightarrow>
             Inr (Returned (dict_eq (dict_of (lower_items self)) (dict_of (lower_items other')))))
      else Inr NotImplemented)"

definition cid_copy :: "'v CaseInsensitiveDict \<Rightarrow> error + 'v CaseInsensitiveDict" where
  "cid_copy self = cid_init (PyPairs (dict_values (store self))) []"

text \<open>
  The methods on a heap of instances: \<^verbatim>\<open>__setitem__\<close> and \<^verbatim>\<open>__delitem__\<close> change the
  object \<open>self\<close> refers to; \<^verbatim>\<open>copy\<close> allocates the object it returns. A method
  that raises leaves the heap as it was.
\<close>

definition h_setitem ::
  "'v CaseInsensitiveDict heap \<Rightarrow> ref \<Rightarrow> string \<Rightarrow> 'v \<Rightarrow> 'v CaseInsensitiveDict heap" where
  "h_setitem h self key val = h[self := cid_setitem (h ! self) key val]"

definition h_delitem ::
  "'v CaseInsensitiveDict heap \<Rightarrow> ref \<Rightarrow> string \<Rightarrow> error + 'v CaseInsensitiveDict heap" where
  "h_delitem h self key =
     (case cid_delitem (h ! self) key of
        Inl e \<Rightarrow> Inl e
      | Inr obj \<Rightarrow> Inr (h[self := obj]))"

definition h_copy ::
  "'v CaseInsensitiveDict heap \<Rightarrow> ref \<Rightarrow> error + (ref \<times> 'v CaseInsensitiveDict heap)" where
  "h_copy h self =
     (case cid_copy (h ! self) of
        Inl e \<Rightarrow> Inl e
      | Inr obj \<Rightarrow> Inr (alloc h obj))"

text \<open>
  The invariant of the instances the class builds: the keys of \<^verbatim>\<open>_store\<close> are distinct,
  and every item is stored under the lowercased form of its own key.
\<close>

fun keyed_by_lower :: "(string \<times> 'v) pydict \<Rightarrow> bool" where
  "keyed_by_lower [] = True"
| "keyed_by_lower (p # d) = (fst p = lower (fst (snd p)) \<and> keyed_by_lower d)"

definition cid_inv :: "'v CaseInsensitiveDict \<Rightarrow> bool" where
  "cid_inv self = (distinct (map fst (store self)) \<and> keyed_by_lower (store self))"

section \<open>\<^verbatim>\<open>LookupDict\<close>\<close>

text \<open>
  A \<^verbatim>\<open>LookupDict\<close> is a \<^verbatim>\<open>dict\<close> subclass, so an instance has two stores: the items of
  the dictionary it inherits from, and its attribute namespace \<^verbatim>\<open>__dict__\<close>. A value is
  \<open>None\<close> for Python's \<^verbatim>\<open>None\<close> and \<open>Some x\<close> for any other object that is neither a
  dictionary nor a class (a status code, a string).
\<close>

record 'a LookupDict =
  attrs :: "'a option pydict"
  entries :: "'a option pydict"

definition ld_init :: "'a option \<Rightarrow> 'a LookupDict" where
  \<comment> \<open>\<^verbatim>\<open>self.name = name; super().__init__()\<close>\<close>
  "ld_init name = \<lparr>attrs = dict_setitem [] ''name'' name, entries = []\<rparr>"

definition ld_getitem :: "'a LookupDict \<Rightarrow> string \<Rightarrow> 'a option" where
  "ld_getitem self key = dict_get (attrs self) key None"

definition ld_get :: "'a LookupDict \<Rightarrow> string \<Rightarrow> 'a option \<Rightarrow> 'a option" where
  "ld_get self key dflt = dict_get (attrs self) key dflt"



definition ld_setitem :: "'a LookupDict \<Rightarrow> string \<Rightarrow> 'a option \<Rightarrow> 'a LookupDict" where
  "ld_setitem self key val = self\<lparr>entries := dict_setitem (entries self) key val\<rparr>"

section \<open>\<^verbatim>\<open>NetworkTraffic\<close>\<close>

record NetworkTraffic =
  upload :: int
  download :: int

text \<open>
  The right operand of \<^verbatim>\<open>+\<close> and \<^verbatim>\<open>+=\<close> is a reference to a \<^verbatim>\<open>NetworkTraffic\<close> or
  a value of another type.
\<close>

datatype operand = Traffic ref | NotTraffic

definition nt_init :: "NetworkTraffic heap \<Rightarrow> int \<Rightarrow> int \<Rightarrow> ref \<times> NetworkTraffic heap" where
  "nt_init h up down = alloc h \<lparr>upload = up, download = down\<rparr>"

definition nt_add ::
  "NetworkTraffic heap \<Rightarrow> ref \<Rightarrow> operand \<Rightarrow> (ref \<times> NetworkTraffic heap) dispatch" where
  "nt_add h self other =
     (case other of
        NotTraffic \<Rightarrow> NotImplemented
      | Traffic b \<Rightarrow>
          Returned (nt_init h (upload (h ! self) + upload (h ! b))
                              (download (h ! self) + download (h ! b))))"

definition nt_iadd ::
  "NetworkTraffic heap \<Rightarrow> ref \<Rightarrow> operand \<Rightarrow> (ref \<times> NetworkTraffic heap) dispatch" where
  "nt_iadd h self other =
     (case other of
        NotTraffic \<Rightarrow> NotImplemented
      | Traffic b \<Rightarrow>
          (let h1 = h[self := (h ! self)\<lparr>upload := upload (h ! self) + upload (h ! b)\<rparr>];
               h2 = h1[self := (h1 ! self)\<lparr>download := download (h1 ! self) + download (h1 ! b)\<rparr>]
           in Returned (self, h2)))"

section \<open>Facts about dictionaries\<close>

lemma dict_getitem_map_of:
  "dict_getitem d k = (case map_of d k of None \<Rightarrow> Inl (KeyError k) | Some a \<Rightarrow> Inr a)"
  by (induction d) auto

lemma dict_getitem_Inl_iff: "(\<exists>e. dict_getitem d k = Inl e) \<longleftrightarrow> k \<notin> fst ` set d"
  by (induction d) auto

lemma dict_getitem_absent: "k \<notin> fst ` set d \<Longrightarrow> dict_getitem d k = Inl (KeyError k)"
  by (induction d) auto

lemma dict_getitem_setitem_same: "dict_getitem (dict_setitem d k a) k = Inr a"
  by (induction d) auto

lemma dict_getitem_setitem_other:
  "k' \<noteq> k \<Longrightarrow> dict_getitem (dict_setitem d k a) k' = dict_getitem d k'"
  by (induction d) auto

lemma dict_setitem_absent: "k \<notin> fst ` set d \<Longrightarrow> dict_setitem d k a = d @ [(k, a)]"
  by (induction d) auto

lemma dict_setitem_keys_present: "k \<in> fst ` set d \<Longrightarrow> map fst (dict_setitem d k a) = map fst d"
  by (induction d) auto

lemma dict_setitem_keys: "fst ` set (dict_setitem d k a) = insert k (fst ` set d)"
  by (induction d) auto

lemma dict_setitem_distinct:
  "distinct (map fst d) \<Longrightarrow> distinct (map fst (dict_setitem d k a))"
  by (induction d) (auto simp: dict_setitem_keys)

lemma dict_setitem_present_nth:
  "k \<in> fst ` set d \<Longrightarrow>
   \<exists>i < length d. fst (d ! i) = k \<and> (\<forall>j < i. fst (d ! j) \<noteq> k) \<and> dict_setitem d k a = d[i := (k, a)]"
proof (induction d)
  case Nil
  then show ?case by simp
next
  case (Cons p d)
  show ?case
  proof (cases "fst p = k")
    case True
    then show ?thesis by (intro exI[of _ 0]) simp
  next
    case False
    with Cons obtain i where i: "i < length d" "fst (d ! i) = k" "\<forall>j < i. fst (d ! j) \<noteq> k"
      "dict_setitem d k a = d[i := (k, a)]" by auto
    show ?thesis
    proof (intro exI[of _ "Suc i"] conjI allI impI)
      fix j assume "j < Suc i"
      then show "fst ((p # d) ! j) \<noteq> k" using False i(3) by (cases j) auto
    qed (use False i in auto)
  qed
qed

lemma dict_delitem_absent: "k \<notin> fst ` set d \<Longrightarrow> dict_delitem d k = Inl (KeyError k)"
  by (induction d) auto

lemma dict_delitem_present:
  "k \<in> fst ` set d \<Longrightarrow> distinct (map fst d) \<Longrightarrow> dict_delitem d k = Inr (filter (\<lambda>p. fst p \<noteq> k) d)"
proof (induction d)
  case Nil
  then show ?case by simp
next
  case (Cons p d)
  show ?case
  proof (cases "fst p = k")
    case True
    from Cons.prems(2) have "fst p \<notin> fst ` set d" by simp
    with True have "\<forall>q \<in> set d. fst q \<noteq> k" by (auto simp: image_iff)
    then have "filter (\<lambda>p. fst p \<noteq> k) d = d" by (simp add: filter_id_conv)
    with True show ?thesis by simp
  next
    case False
    with Cons show ?thesis by auto
  qed
qed

lemma keyed_by_lower_iff: "keyed_by_lower d \<longleftrightarrow> (\<forall>p \<in> set d. fst p = lower (fst (snd p)))"
  by (induction d) auto

lemma keyed_by_lower_setitem:
  "keyed_by_lower d \<Longrightarrow> keyed_by_lower (dict_setitem d (lower k) (k, v))"
  by (induction d) auto

lemma cid_inv_setitem: "cid_inv self \<Longrightarrow> cid_inv (cid_setitem self key v)"
  by (simp add: cid_inv_def cid_setitem_def dict_setitem_distinct keyed_by_lower_setitem)

lemma cid_inv_empty: "cid_inv \<lparr>store = []\<rparr>"
  by (simp add: cid_inv_def)

lemma cid_inv_set_all: "cid_inv self \<Longrightarrow> cid_inv (set_all self ps)"
  by (induction ps arbitrary: self) (auto simp: cid_inv_setitem)

lemma cid_inv_delitem:
  assumes "cid_inv self" "cid_delitem self key = Inr self'"
  shows "cid_inv self'"
proof -
  have present: "lower key \<in> fst ` set (store self)"
    using assms(2) dict_delitem_absent[of "lower key" "store self"]
    by (auto simp: cid_delitem_def split: sum.splits)
  with assms have "store self' = filter (\<lambda>p. fst p \<noteq> lower key) (store self)"
    by (auto simp: cid_delitem_def cid_inv_def dict_delitem_present split: sum.splits)
  with assms(1) show ?thesis
    by (auto simp: cid_inv_def keyed_by_lower_iff distinct_map_filter)
qed

lemma cid_init_inv: "cid_init data kwargs = Inr m \<Longrightarrow> cid_inv m"
  by (cases data)
     (auto simp: cid_init_def cid_inv_set_all cid_inv_empty split: sum.splits)

lemma cid_copy_result_inv: "cid_copy self = Inr m \<Longrightarrow> cid_inv m"
  unfolding cid_copy_def by (rule cid_init_inv)

lemma inv_getitem_entry:
  "distinct (map fst d) \<Longrightarrow> (k, a) \<in> set d \<Longrightarrow> dict_getitem d k = Inr a"
  by (induction d) force+

lemma read_all_entries:
  assumes "cid_inv self" "set ps \<subseteq> set (store self)"
  shows "read_all self (map (\<lambda>p. fst (snd p)) ps) = Inr (map snd ps)"
  using assms(2)
proof (induction ps)
  case Nil
  then show ?case by simp
next
  case (Cons p ps)
  obtain lk k v where p: "p = (lk, (k, v))" by (cases p) auto
  with Cons.prems have mem: "(lk, (k, v)) \<in> set (store self)" by simp
  with assms(1) have "lk = lower k" by (auto simp: cid_inv_def keyed_by_lower_iff)
  with mem assms(1) have "cid_getitem self k = Inr v"
    by (simp add: cid_getitem_def cid_inv_def inv_getitem_entry)
  with Cons p show ?case by simp
qed

lemma cid_items_inv: "cid_inv self \<Longrightarrow> cid_items self = Inr (dict_values (store self))"
  using read_all_entries[of self "store self"]
  by (simp add: cid_items_def cid_iter_def dict_values_def case_prod_unfold comp_def)

section \<open>Properties of \<^verbatim>\<open>CaseInsensitiveDict\<close>\<close>

text \<open>
  Claim C1. Lookup is case-insensitive: when two keys have the same lowercased form, then
  after \<^verbatim>\<open>m[k1] = v\<close> on any map, \<^verbatim>\<open>m[k2]\<close> returns \<open>v\<close> and
  \<^verbatim>\<open>k2 in m\<close> is true.
\<close>

theorem cid_set_then_get:
  "lower k1 = lower k2 \<Longrightarrow>
   cid_getitem (cid_setitem self k1 v) k2 = Inr v \<and>
   cid_contains (cid_setitem self k1 v) k2 = Inr True"
  by (simp add: cid_getitem_def cid_setitem_def cid_contains_def dict_getitem_setitem_same)

theorem cid_set_then_get_witness:
  "lower ''Accept'' = lower ''aCCEPT'' \<and>
   cid_getitem (cid_setitem \<lparr>store = [(''host'', (''Host'', 1))]\<rparr> ''Accept'' (2::int)) ''aCCEPT'' = Inr 2 \<and>
   cid_contains (cid_setitem \<lparr>store = [(''host'', (''Host'', 1))]\<rparr> ''Accept'' (2::int)) ''aCCEPT'' = Inr True"
proof -
  have h: "lower ''Accept'' = lower ''aCCEPT''" by code_simp
  show ?thesis
    using h cid_set_then_get [OF h, of "\<lparr>store = [(''host'', (''Host'', 1))]\<rparr>" "2::int"] by simp
qed

lemma dict_getitem_filter:
  "dict_getitem (filter (\<lambda>p. fst p \<noteq> k) d) k' =
     (if k' = k then Inl (KeyError k) else dict_getitem d k')"
  by (induction d) auto

lemma dict_getitem_present: "k \<in> fst ` set d \<Longrightarrow> \<exists>a. dict_getitem d k = Inr a"
  by (induction d) auto

lemma length_filter_distinct_key:
  "distinct (map fst d) \<Longrightarrow> k \<in> fst ` set d \<Longrightarrow> Suc (length (filter (\<lambda>p. fst p \<noteq> k) d)) = length d"
proof (induction d)
  case Nil
  then show ?case by simp
next
  case (Cons p d)
  show ?case
  proof (cases "fst p = k")
    case True
    from Cons.prems(1) have "fst p \<notin> fst ` set d" by simp
    with True have "\<forall>q \<in> set d. fst q \<noteq> k" by (auto simp: image_iff)
    then have "filter (\<lambda>p. fst p \<noteq> k) d = d" by (simp add: filter_id_conv)
    with True show ?thesis by simp
  next
    case False
    with Cons show ?thesis by auto
  qed
qed

text \<open>
  Claim C7. \<^verbatim>\<open>m[key]\<close> returns the value stored under the lowercased key and raises
  \<^verbatim>\<open>KeyError\<close> exactly when the lowercased key has no item; \<^verbatim>\<open>del m[key]\<close> removes
  the item of the lowercased key and raises \<^verbatim>\<open>KeyError\<close> exactly when there is none.
  The exception is the one the underlying dictionary raised, for the lowercased key; no
  method catches it.
\<close>

theorem cid_get_delete_KeyError:
  "cid_getitem self key =
     (case map_of (store self) (lower key) of
        None \<Rightarrow> Inl (KeyError (lower key))
      | Some keyval \<Rightarrow> Inr (snd keyval)) \<and>
   ((\<exists>e. cid_getitem self key = Inl e) \<longleftrightarrow> lower key \<notin> fst ` set (store self)) \<and>
   ((\<exists>e. cid_delitem self key = Inl e) \<longleftrightarrow> lower key \<notin> fst ` set (store self)) \<and>
   (lower key \<notin> fst ` set (store self) \<longrightarrow>
      cid_getitem self key = Inl (KeyError (lower key)) \<and>
      cid_delitem self key = Inl (KeyError (lower key))) \<and>
   (cid_inv self \<longrightarrow> lower key \<in> fst ` set (store self) \<longrightarrow>
      (\<exists>self'. cid_delitem self key = Inr self' \<and>
         store self' = filter (\<lambda>p. fst p \<noteq> lower key) (store self) \<and>
         Suc (cid_len self') = cid_len self \<and>
         cid_getitem self' key = Inl (KeyError (lower key)) \<and>
         (\<forall>k'. lower k' \<noteq> lower key \<longrightarrow> cid_getitem self' k' = cid_getitem self k')))"
proof (intro conjI impI)
  show "cid_getitem self key =
     (case map_of (store self) (lower key) of
        None \<Rightarrow> Inl (KeyError (lower key))
      | Some keyval \<Rightarrow> Inr (snd keyval))"
    by (simp add: cid_getitem_def dict_getitem_map_of split: option.splits)
  show "(\<exists>e. cid_getitem self key = Inl e) \<longleftrightarrow> lower key \<notin> fst ` set (store self)"
    using dict_getitem_Inl_iff[of "store self" "lower key"]
    by (auto simp: cid_getitem_def split: sum.splits)
  show "(\<exists>e. cid_delitem self key = Inl e) \<longleftrightarrow> lower key \<notin> fst ` set (store self)"
  proof
    assume "\<exists>e. cid_delitem self key = Inl e"
    then obtain e where e: "dict_delitem (store self) (lower key) = Inl e"
      by (auto simp: cid_delitem_def split: sum.splits)
    have "\<And>d k. dict_delitem d k = Inl e \<Longrightarrow> k \<notin> fst ` set (d :: (string \<times> (string \<times> 'a)) list)"
    proof -
      fix d :: "(string \<times> (string \<times> 'a)) list" and k
      show "dict_delitem d k = Inl e \<Longrightarrow> k \<notin> fst ` set d"
        by (induction d) (auto split: if_splits sum.splits)
    qed
    with e show "lower key \<notin> fst ` set (store self)" by blast
  next
    assume "lower key \<notin> fst ` set (store self)"
    then show "\<exists>e. cid_delitem self key = Inl e"
      by (simp add: cid_delitem_def dict_delitem_absent)
  qed
next
  assume "lower key \<notin> fst ` set (store self)"
  then show "cid_getitem self key = Inl (KeyError (lower key))"
    and "cid_delitem self key = Inl (KeyError (lower key))"
    by (simp_all add: cid_getitem_def cid_delitem_def dict_getitem_absent dict_delitem_absent)
next
  assume inv: "cid_inv self" and present: "lower key \<in> fst ` set (store self)"
  let ?d = "filter (\<lambda>p. fst p \<noteq> lower key) (store self)"
  from inv present have del: "cid_delitem self key = Inr (self\<lparr>store := ?d\<rparr>)"
    by (simp add: cid_delitem_def cid_inv_def dict_delitem_present)
  from inv present have len: "Suc (length ?d) = length (store self)"
    by (simp add: cid_inv_def length_filter_distinct_key)
  show "\<exists>self'. cid_delitem self key = Inr self' \<and>
         store self' = ?d \<and>
         Suc (cid_len self') = cid_len self \<and>
         cid_getitem self' key = Inl (KeyError (lower key)) \<and>
         (\<forall>k'. lower k' \<noteq> lower key \<longrightarrow> cid_getitem self' k' = cid_getitem self k')"
    using del len
    by (intro exI[of _ "self\<lparr>store := ?d\<rparr>"])
       (simp add: cid_len_def cid_getitem_def dict_getitem_filter)
qed

lemma lower_HOST: "lower ''HOST'' = ''host''" by code_simp

theorem cid_get_delete_KeyError_witness:
  "cid_inv \<lparr>store = [(''host'', (''Host'', 1::int)), (''accept'', (''Accept'', 2))]\<rparr> \<and>
   lower ''HOST'' \<in> fst ` set [(''host'', (''Host'', 1::int)), (''accept'', (''Accept'', 2))] \<and>
   cid_getitem \<lparr>store = [(''host'', (''Host'', 1::int)), (''accept'', (''Accept'', 2))]\<rparr> ''HOST'' = Inr 1 \<and>
   (\<exists>self'. cid_delitem \<lparr>store = [(''host'', (''Host'', 1::int)), (''accept'', (''Accept'', 2))]\<rparr> ''HOST'' = Inr self' \<and>
      store self' = [(''accept'', (''Accept'', 2))] \<and>
      cid_getitem self' ''HOST'' = Inl (KeyError ''host''))"
proof -
  let ?S = "\<lparr>store = [(''host'', (''Host'', 1::int)), (''accept'', (''Accept'', 2))]\<rparr>"
  have inv: "cid_inv ?S" by code_simp
  have present: "lower ''HOST'' \<in> fst ` set (store ?S)" by (simp add: lower_HOST)
  from cid_get_delete_KeyError[of ?S "''HOST''"] inv present
  show ?thesis by (auto simp: lower_HOST)
qed

lemma cid_iter_store: "cid_iter self = map (\<lambda>p. fst (snd p)) (store self)"
  by (simp add: cid_iter_def dict_values_def case_prod_unfold comp_def)

text \<open>
  Claim C5. Iteration follows the insertion order of the lowercased keys: \<^verbatim>\<open>m[key] = v\<close>
  appends \<open>key\<close> to the end of the iteration order exactly when the lowercased key is
  not yet present; when it is present, the item is replaced at its position and no
  position changes. \<^verbatim>\<open>iter(m)\<close>, \<^verbatim>\<open>keys()\<close> and \<^verbatim>\<open>items()\<close> yield the keys
  as they were written, in that order, and being functions of the current state they
  yield the same sequence on every traversal.
\<close>

theorem cid_iteration_order:
  "(lower key \<notin> fst ` set (store self) \<longrightarrow>
      cid_iter (cid_setitem self key v) = cid_iter self @ [key]) \<and>
   (lower key \<in> fst ` set (store self) \<longrightarrow>
      map fst (store (cid_setitem self key v)) = map fst (store self) \<and>
      (\<exists>i < length (store self).
          fst (store self ! i) = lower key \<and>
          store (cid_setitem self key v) = (store self)[i := (lower key, (key, v))] \<and>
          cid_iter (cid_setitem self key v) = (cid_iter self)[i := key])) \<and>
   (cid_iter (cid_setitem self key v) = cid_iter self @ [key]
      \<longleftrightarrow> lower key \<notin> fst ` set (store self)) \<and>
   cid_keys self = cid_iter self \<and>
   (cid_inv self \<longrightarrow>
      (\<exists>ps. cid_items self = Inr ps \<and> ps = dict_values (store self) \<and> map fst ps = cid_iter self))"
proof -
  have absent: "cid_iter (cid_setitem self key v) = cid_iter self @ [key]"
    if "lower key \<notin> fst ` set (store self)"
    using that by (simp add: cid_iter_store cid_setitem_def dict_setitem_absent)
  have present: "map fst (store (cid_setitem self key v)) = map fst (store self) \<and>
      (\<exists>i < length (store self).
          fst (store self ! i) = lower key \<and>
          store (cid_setitem self key v) = (store self)[i := (lower key, (key, v))] \<and>
          cid_iter (cid_setitem self key v) = (cid_iter self)[i := key])"
    if p: "lower key \<in> fst ` set (store self)"
  proof -
    from dict_setitem_present_nth[OF p, of "(key, v)"]
    obtain i where i: "i < length (store self)" "fst (store self ! i) = lower key"
      "dict_setitem (store self) (lower key) (key, v) = (store self)[i := (lower key, (key, v))]"
      by blast
    have "cid_iter (cid_setitem self key v) = (cid_iter self)[i := key]"
      by (simp add: cid_iter_store cid_setitem_def i(3) map_update)
    moreover have "map fst (store (cid_setitem self key v)) = map fst (store self)"
      using p by (simp add: cid_setitem_def dict_setitem_keys_present)
    moreover have "store (cid_setitem self key v) = (store self)[i := (lower key, (key, v))]"
      by (simp add: cid_setitem_def i(3))
    ultimately show ?thesis using i(1,2) by blast
  qed
  have same_len: "length (cid_iter (cid_setitem self key v)) = length (cid_iter self)"
    if p: "lower key \<in> fst ` set (store self)"
    using present[OF p] by auto
  have iff: "cid_iter (cid_setitem self key v) = cid_iter self @ [key]
      \<longleftrightarrow> lower key \<notin> fst ` set (store self)"
  proof
    assume eq: "cid_iter (cid_setitem self key v) = cid_iter self @ [key]"
    show "lower key \<notin> fst ` set (store self)"
    proof
      assume "lower key \<in> fst ` set (store self)"
      from same_len[OF this] eq show False by simp
    qed
  qed (rule absent)
  have keys: "cid_keys self = cid_iter self" by (simp add: cid_keys_def)
  have items: "\<exists>ps. cid_items self = Inr ps \<and> ps = dict_values (store self) \<and> map fst ps = cid_iter self"
    if "cid_inv self"
    using cid_items_inv[OF that] by (simp add: cid_iter_store dict_values_def)
  from absent present iff keys items show ?thesis by blast
qed

lemma lower_Accept: "lower ''Accept'' = ''accept''" by code_simp
lemma lower_accept: "lower ''accept'' = ''accept''" by code_simp
lemma lower_ACCEPT: "lower ''ACCEPT'' = ''accept''" by code_simp
lemma lower_Host: "lower ''Host'' = ''host''" by code_simp

theorem cid_iteration_order_witness:
  "lower ''ACCEPT'' \<in> fst ` set [(''accept'', (''Accept'', 1::int)), (''host'', (''Host'', 2))] \<and>
   lower ''Date'' \<notin> fst ` set [(''accept'', (''Accept'', 1::int)), (''host'', (''Host'', 2))] \<and>
   cid_inv \<lparr>store = [(''accept'', (''Accept'', 1::int)), (''host'', (''Host'', 2))]\<rparr> \<and>
   cid_iter (cid_setitem \<lparr>store = [(''accept'', (''Accept'', 1::int)), (''host'', (''Host'', 2))]\<rparr> ''ACCEPT'' 3)
     = [''ACCEPT'', ''Host''] \<and>
   cid_iter (cid_setitem \<lparr>store = [(''accept'', (''Accept'', 1::int)), (''host'', (''Host'', 2))]\<rparr> ''Date'' 3)
     = [''Accept'', ''Host'', ''Date''] \<and>
   cid_items \<lparr>store = [(''accept'', (''Accept'', 1::int)), (''host'', (''Host'', 2))]\<rparr>
     = Inr [(''Accept'', 1), (''Host'', 2)]"
proof -
  let ?S = "\<lparr>store = [(''accept'', (''Accept'', 1::int)), (''host'', (''Host'', 2))]\<rparr>"
  have inv: "cid_inv ?S" by code_simp
  have lD: "lower ''Date'' = ''date''" by code_simp
  have iter: "cid_iter ?S = [''Accept'', ''Host'']" by (simp add: cid_iter_store)
  have a: "lower ''Date'' \<notin> fst ` set (store ?S)" by (simp add: lD)
  have p: "lower ''ACCEPT'' \<in> fst ` set (store ?S)" by (simp add: lower_ACCEPT)
  from cid_iteration_order[of "''Date''" ?S 3] a iter
  have 1: "cid_iter (cid_setitem ?S ''Date'' 3) = [''Accept'', ''Host'', ''Date'']" by simp
  from cid_iteration_order[of "''ACCEPT''" ?S 3] p
  obtain i where "i < length (store ?S)" "fst (store ?S ! i) = lower ''ACCEPT''"
     "cid_iter (cid_setitem ?S ''ACCEPT'' 3) = (cid_iter ?S)[i := ''ACCEPT'']" by blast
  then have 2: "cid_iter (cid_setitem ?S ''ACCEPT'' 3) = [''ACCEPT'', ''Host'']"
    by (cases i) (auto simp: iter lower_ACCEPT less_Suc_eq)
  from cid_iteration_order[of "''Date''" ?S 3] inv
  have 3: "cid_items ?S = Inr [(''Accept'', 1), (''Host'', 2)]" by (simp add: dict_values_def)
  from inv a p 1 2 3 show ?thesis by simp
qed

lemma count_cased_key:
  "distinct (map fst d) \<Longrightarrow> keyed_by_lower d \<Longrightarrow> (lk, (k, v)) \<in> set d \<Longrightarrow>
   count_list (map (\<lambda>p. fst (snd p)) d) k = 1"
proof (induction d)
  case Nil
  then show ?case by simp
next
  case (Cons p d)
  from Cons.prems(2) have kl: "\<forall>q \<in> set (p # d). fst q = lower (fst (snd q))"
    by (simp only: keyed_by_lower_iff)
  from Cons.prems(3) kl have lk: "lk = lower k" by fastforce
  show ?case
  proof (cases "p = (lk, (k, v))")
    case True
    have "count_list (map (\<lambda>p. fst (snd p)) d) k = 0"
    proof (rule ccontr)
      assume "count_list (map (\<lambda>p. fst (snd p)) d) k \<noteq> 0"
      then have "k \<in> set (map (\<lambda>p. fst (snd p)) d)" by (simp add: count_list_0_iff)
      then obtain q where q: "q \<in> set d" "fst (snd q) = k" by auto
      with kl have "fst q = lk" by (simp add: lk)
      with q(1) have "lk \<in> fst ` set d" by force
      with True Cons.prems(1) show False by simp
    qed
    with True show ?thesis by simp
  next
    case False
    with Cons.prems(3) have mem: "(lk, (k, v)) \<in> set d" by simp
    with Cons have ih: "count_list (map (\<lambda>p. fst (snd p)) d) k = 1" by simp
    have "fst (snd p) \<noteq> k"
    proof
      assume "fst (snd p) = k"
      with kl have "fst p = lk" by (simp add: lk)
      moreover from mem have "lk \<in> fst ` set d" by force
      ultimately show False using Cons.prems(1) by simp
    qed
    with ih show ?thesis by simp
  qed
qed

lemma filter_key_distinct:
  "distinct (map fst d) \<Longrightarrow> (k, a) \<in> set d \<Longrightarrow> filter (\<lambda>p. fst p = k) d = [(k, a)]"
proof (induction d)
  case Nil
  then show ?case by simp
next
  case (Cons p d)
  show ?case
  proof (cases "fst p = k")
    case True
    from Cons.prems(1) have "fst p \<notin> fst ` set d" by simp
    with True have no: "\<forall>q \<in> set d. fst q \<noteq> k" by (auto simp: image_iff)
    then have "filter (\<lambda>p. fst p = k) d = []" by (simp add: filter_empty_conv)
    moreover from no Cons.prems(2) have "p = (k, a)" by auto
    ultimately show ?thesis using True by simp
  next
    case False
    with Cons show ?thesis by auto
  qed
qed

lemma dict_setitem_mem: "(k, a) \<in> set (dict_setitem d k a)"
  by (induction d) auto

lemma cased_key_absent:
  assumes "keyed_by_lower d" "distinct (map fst d)" "(lower k, (k', v)) \<in> set d" "k \<noteq> k'"
  shows "k \<notin> set (map (\<lambda>p. fst (snd p)) d)"
proof
  assume "k \<in> set (map (\<lambda>p. fst (snd p)) d)"
  then obtain q where q: "q \<in> set d" "fst (snd q) = k" by auto
  with assms(1) have "fst q = lower k" by (simp add: keyed_by_lower_iff)
  with q(1) assms(2,3) have "q = (lower k, (k', v))"
    by (metis eq_key_imp_eq_value prod.collapse)
  with q(2) assms(4) show False by simp
qed

lemma accept_scenario:
  "cid_init (PyPairs [(''Accept'', ''json''), (''accept'', ''xml'')]) []
     = Inr \<lparr>store = [(''accept'', (''accept'', ''xml''))]\<rparr>"
  by (simp add: cid_init_def cid_setitem_def lower_Accept lower_accept)

text \<open>
  Claim C2. Setting the same lowercased key twice with different casings keeps exactly one
  item for it, whose recorded key is the one of the last assignment; iteration yields
  that key exactly once and the earlier casing not at all. In particular
  \<^verbatim>\<open>CaseInsensitiveDict([("Accept", "json"), ("accept", "xml")])\<close> has length 1,
  \<^verbatim>\<open>m["ACCEPT"] == "xml"\<close> and \<^verbatim>\<open>list(m.keys()) == ["accept"]\<close>.
\<close>

theorem last_casing_wins:
  assumes "cid_inv self" and "lower k1 = lower k2"
  shows
    "filter (\<lambda>p. fst p = lower k2) (store (cid_setitem (cid_setitem self k1 v1) k2 v2))
       = [(lower k2, (k2, v2))] \<and>
     cid_len (cid_setitem (cid_setitem self k1 v1) k2 v2) = cid_len (cid_setitem self k1 v1) \<and>
     count_list (cid_iter (cid_setitem (cid_setitem self k1 v1) k2 v2)) k2 = 1 \<and>
     (k1 \<noteq> k2 \<longrightarrow> k1 \<notin> set (cid_iter (cid_setitem (cid_setitem self k1 v1) k2 v2))) \<and>
     cid_getitem (cid_setitem (cid_setitem self k1 v1) k2 v2) k1 = Inr v2 \<and>
     (\<exists>m. cid_init (PyPairs [(''Accept'', ''json''), (''accept'', ''xml'')]) [] = Inr m \<and>
          cid_len m = 1 \<and> cid_getitem m ''ACCEPT'' = Inr ''xml'' \<and> cid_keys m = [''accept''])"
proof -
  let ?m1 = "cid_setitem self k1 v1"
  let ?m2 = "cid_setitem ?m1 k2 v2"
  have inv2: "cid_inv ?m2" using assms(1) by (simp add: cid_inv_setitem)
  then have dist: "distinct (map fst (store ?m2))" and kl: "keyed_by_lower (store ?m2)"
    by (simp_all add: cid_inv_def)
  have mem: "(lower k2, (k2, v2)) \<in> set (store ?m2)"
    by (simp add: cid_setitem_def dict_setitem_mem)
  have present: "lower k2 \<in> fst ` set (store ?m1)"
    using assms(2) by (simp add: cid_setitem_def dict_setitem_keys)
  have one: "filter (\<lambda>p. fst p = lower k2) (store ?m2) = [(lower k2, (k2, v2))]"
    using dist mem by (rule filter_key_distinct)
  have "map fst (store ?m2) = map fst (store ?m1)"
    using present by (simp add: cid_setitem_def dict_setitem_keys_present)
  then have "length (map fst (store ?m2)) = length (map fst (store ?m1))" by simp
  then have len: "cid_len ?m2 = cid_len ?m1" by (simp add: cid_len_def)
  have cnt: "count_list (cid_iter ?m2) k2 = 1"
    unfolding cid_iter_store using dist kl mem by (rule count_cased_key)
  have gone: "k1 \<notin> set (cid_iter ?m2)" if "k1 \<noteq> k2"
    unfolding cid_iter_store
    using kl dist mem that by (intro cased_key_absent[where k' = k2 and v = v2]) (simp_all add: assms(2))
  have get: "cid_getitem ?m2 k1 = Inr v2"
    using assms(2) by (simp add: cid_getitem_def cid_setitem_def dict_getitem_setitem_same)
  have scen: "\<exists>m. cid_init (PyPairs [(''Accept'', ''json''), (''accept'', ''xml'')]) [] = Inr m \<and>
          cid_len m = 1 \<and> cid_getitem m ''ACCEPT'' = Inr ''xml'' \<and> cid_keys m = [''accept'']"
    by (simp add: accept_scenario cid_len_def cid_getitem_def lower_ACCEPT cid_keys_def cid_iter_store)
  from one len cnt gone get scen show ?thesis by blast
qed

theorem last_casing_wins_witness:
  "cid_inv \<lparr>store = [(''host'', (''Host'', ''a''))]\<rparr> \<and>
   lower ''Accept'' = lower ''ACCEPT'' \<and>
   cid_len (cid_setitem (cid_setitem \<lparr>store = [(''host'', (''Host'', ''a''))]\<rparr> ''Accept'' ''json'') ''ACCEPT'' ''xml'')
     = cid_len (cid_setitem \<lparr>store = [(''host'', (''Host'', ''a''))]\<rparr> ''Accept'' ''json'') \<and>
   count_list (cid_iter (cid_setitem (cid_setitem \<lparr>store = [(''host'', (''Host'', ''a''))]\<rparr> ''Accept'' ''json'') ''ACCEPT'' ''xml'')) ''ACCEPT'' = 1 \<and>
   ''Accept'' \<notin> set (cid_iter (cid_setitem (cid_setitem \<lparr>store = [(''host'', (''Host'', ''a''))]\<rparr> ''Accept'' ''json'') ''ACCEPT'' ''xml'')) \<and>
   cid_iter (cid_setitem (cid_setitem \<lparr>store = [(''host'', (''Host'', ''a''))]\<rparr> ''Accept'' ''json'') ''ACCEPT'' ''xml'')
     = [''Host'', ''ACCEPT'']"
proof -
  let ?S = "\<lparr>store = [(''host'', (''Host'', ''a''))]\<rparr>"
  have inv: "cid_inv ?S" by code_simp
  have eq: "lower ''Accept'' = lower ''ACCEPT''" by (simp add: lower_Accept lower_ACCEPT)
  have ne: "''Accept'' \<noteq> ''ACCEPT''" by simp
  have it: "cid_iter (cid_setitem (cid_setitem ?S ''Accept'' ''json'') ''ACCEPT'' ''xml'') = [''Host'', ''ACCEPT'']"
    by (simp add: cid_iter_store cid_setitem_def lower_Accept lower_ACCEPT)
  from last_casing_wins[OF inv eq, of "''json''" "''xml''"] ne inv eq it
  show ?thesis by blast
qed

lemma dict_update_fresh:
  "distinct (map fst ps) \<Longrightarrow> fst ` set d \<inter> fst ` set ps = {} \<Longrightarrow> dict_update d ps = d @ ps"
proof (induction ps arbitrary: d)
  case Nil
  then show ?case by simp
next
  case (Cons p ps)
  from Cons.prems(2) have "fst p \<notin> fst ` set d" by auto
  then have step: "dict_setitem d (fst p) (snd p) = d @ [p]" by (simp add: dict_setitem_absent)
  from Cons.prems have "fst ` set (d @ [p]) \<inter> fst ` set ps = {}" by auto
  with Cons.IH[of "d @ [p]"] Cons.prems(1) step show ?case by simp
qed

lemma dict_of_distinct: "distinct (map fst ps) \<Longrightarrow> dict_of ps = ps"
  using dict_update_fresh[of ps "[]"] by (simp add: dict_of_def)

lemma dict_getitem_Inr_mem: "dict_getitem d k = Inr a \<Longrightarrow> (k, a) \<in> set d"
  by (induction d) (auto split: if_splits)

lemma dict_all_in_subset:
  "distinct (map fst d2) \<Longrightarrow> dict_all_in d1 d2 \<longleftrightarrow> set d1 \<subseteq> set d2"
proof (induction d1)
  case Nil
  then show ?case by simp
next
  case (Cons p d1)
  have "dict_getitem d2 (fst p) = Inr (snd p) \<longleftrightarrow> p \<in> set d2"
    using Cons.prems inv_getitem_entry[of d2 "fst p" "snd p"]
      dict_getitem_Inr_mem[of d2 "fst p" "snd p"] by auto
  with Cons show ?case by simp
qed

lemma dict_eq_set:
  assumes "distinct (map fst d1)" "distinct (map fst d2)"
  shows "dict_eq d1 d2 \<longleftrightarrow> set d1 = set d2"
proof -
  from assms have d: "distinct d1" "distinct d2" by (simp_all add: distinct_map)
  show ?thesis
  proof
    assume "dict_eq d1 d2"
    with assms(2) have len: "length d1 = length d2" and sub: "set d1 \<subseteq> set d2"
      by (simp_all add: dict_eq_def dict_all_in_subset)
    from len d have "card (set d1) = card (set d2)" by (simp add: distinct_card)
    with sub show "set d1 = set d2" by (simp add: card_subset_eq)
  next
    assume eq: "set d1 = set d2"
    with d have "length d1 = length d2" by (metis distinct_card)
    with eq assms(2) show "dict_eq d1 d2" by (simp add: dict_eq_def dict_all_in_subset)
  qed
qed

lemma set_all_rebuild:
  "distinct (map fst d) \<Longrightarrow> keyed_by_lower d \<Longrightarrow> fst ` set d0 \<inter> fst ` set d = {} \<Longrightarrow>
   set_all \<lparr>store = d0\<rparr> (map snd d) = \<lparr>store = d0 @ d\<rparr>"
proof (induction d arbitrary: d0)
  case Nil
  then show ?case by simp
next
  case (Cons p d)
  from Cons.prems(2) have key: "lower (fst (snd p)) = fst p" by simp
  from Cons.prems(3) have "fst p \<notin> fst ` set d0" by auto
  then have step: "cid_setitem \<lparr>store = d0\<rparr> (fst (snd p)) (snd (snd p)) = \<lparr>store = d0 @ [p]\<rparr>"
    by (simp add: cid_setitem_def key dict_setitem_absent)
  from Cons.prems have "fst ` set (d0 @ [p]) \<inter> fst ` set d = {}" by auto
  with Cons.IH[of "d0 @ [p]"] Cons.prems(1,2) step show ?case by simp
qed

lemma cid_init_PyCID: "cid_inv b \<Longrightarrow> cid_init (PyCID b) [] = Inr b"
  using set_all_rebuild[of "store b" "[]"]
  by (simp add: cid_init_def cid_items_inv dict_values_def cid_inv_def)

lemma lower_items_keys: "map fst (lower_items self) = map fst (store self)"
  by (simp add: lower_items_def case_prod_unfold comp_def)

lemma cid_eq_not_Mapping: "\<not> is_Mapping other \<Longrightarrow> cid_eq a other = Inr NotImplemented"
  by (simp add: cid_eq_def)

lemma cid_eq_inv:
  assumes "cid_inv a" "cid_inv b"
  shows "cid_eq a (PyCID b) = Inr (Returned (set (lower_items a) = set (lower_items b)))"
proof -
  from assms have da: "distinct (map fst (lower_items a))" and db: "distinct (map fst (lower_items b))"
    by (simp_all add: lower_items_keys cid_inv_def)
  then show ?thesis
    using assms(2) by (simp add: cid_eq_def cid_init_PyCID dict_of_distinct dict_eq_set)
qed

text \<open>
  Claim C4. Two maps are equal exactly when their mappings from lowercased key to value
  are equal, whatever casings they recorded and in whatever order the keys were inserted:
  \<^verbatim>\<open>{"Accept": "x"}\<close> equals \<^verbatim>\<open>{"ACCEPT": "x"}\<close> and differs from
  \<^verbatim>\<open>{"Accept": "y"}\<close>. Against a value that is not a \<^verbatim>\<open>Mapping\<close>, \<^verbatim>\<open>__eq__\<close>
  returns \<^verbatim>\<open>NotImplemented\<close> and raises nothing.
\<close>

theorem cid_eq_folded_mapping:
  assumes "cid_inv a" and "cid_inv b"
  shows
    "cid_eq a (PyCID b) = Inr (Returned (map_of (lower_items a) = map_of (lower_items b))) \<and>
     (map_of (lower_items a) = map_of (lower_items b)
        \<longleftrightarrow> set (lower_items a) = set (lower_items b)) \<and>
     (\<not> is_Mapping other \<longrightarrow> cid_eq a other = Inr NotImplemented) \<and>
     cid_init (PyDict [(''Accept'', ''x'')]) [] = Inr \<lparr>store = [(''accept'', (''Accept'', ''x''))]\<rparr> \<and>
     cid_init (PyDict [(''ACCEPT'', ''x'')]) [] = Inr \<lparr>store = [(''accept'', (''ACCEPT'', ''x''))]\<rparr> \<and>
     cid_init (PyDict [(''Accept'', ''y'')]) [] = Inr \<lparr>store = [(''accept'', (''Accept'', ''y''))]\<rparr> \<and>
     cid_eq \<lparr>store = [(''accept'', (''Accept'', ''x''))]\<rparr>
            (PyCID \<lparr>store = [(''accept'', (''ACCEPT'', ''x''))]\<rparr>) = Inr (Returned True) \<and>
     cid_eq \<lparr>store = [(''accept'', (''Accept'', ''x''))]\<rparr>
            (PyCID \<lparr>store = [(''accept'', (''Accept'', ''y''))]\<rparr>) = Inr (Returned False)"
proof -
  from assms have da: "distinct (map fst (lower_items a))" and db: "distinct (map fst (lower_items b))"
    by (simp_all add: lower_items_keys cid_inv_def)
  then have maps: "map_of (lower_items a) = map_of (lower_items b)
        \<longleftrightarrow> set (lower_items a) = set (lower_items b)"
    by (rule map_of_inject_set)
  have eq: "cid_eq a (PyCID b) = Inr (Returned (map_of (lower_items a) = map_of (lower_items b)))"
    using cid_eq_inv[OF assms] maps by simp
  have nm: "\<not> is_Mapping other \<longrightarrow> cid_eq a other = Inr NotImplemented"
    by (simp add: cid_eq_not_Mapping)
  have c1: "cid_init (PyDict [(''Accept'', ''x'')]) [] = Inr \<lparr>store = [(''accept'', (''Accept'', ''x''))]\<rparr>"
    by (simp add: cid_init_def cid_setitem_def lower_Accept)
  have c2: "cid_init (PyDict [(''ACCEPT'', ''x'')]) [] = Inr \<lparr>store = [(''accept'', (''ACCEPT'', ''x''))]\<rparr>"
    by (simp add: cid_init_def cid_setitem_def lower_ACCEPT)
  have c3: "cid_init (PyDict [(''Accept'', ''y'')]) [] = Inr \<lparr>store = [(''accept'', (''Accept'', ''y''))]\<rparr>"
    by (simp add: cid_init_def cid_setitem_def lower_Accept)
  have e1: "cid_eq \<lparr>store = [(''accept'', (''Accept'', ''x''))]\<rparr>
            (PyCID \<lparr>store = [(''accept'', (''ACCEPT'', ''x''))]\<rparr>) = Inr (Returned True)"
    by code_simp
  have e2: "cid_eq \<lparr>store = [(''accept'', (''Accept'', ''x''))]\<rparr>
            (PyCID \<lparr>store = [(''accept'', (''Accept'', ''y''))]\<rparr>) = Inr (Returned False)"
    by code_simp
  from eq maps nm c1 c2 c3 e1 e2 show ?thesis by blast
qed

theorem cid_eq_folded_mapping_witness:
  "cid_inv \<lparr>store = [(''accept'', (''Accept'', ''x'')), (''host'', (''Host'', ''h''))]\<rparr> \<and>
   cid_inv \<lparr>store = [(''host'', (''HOST'', ''h'')), (''accept'', (''ACCEPT'', ''x''))]\<rparr> \<and>
   \<not> is_Mapping (PyInt 3 :: string pyvalue) \<and>
   cid_eq \<lparr>store = [(''accept'', (''Accept'', ''x'')), (''host'', (''Host'', ''h''))]\<rparr>
     (PyCID \<lparr>store = [(''host'', (''HOST'', ''h'')), (''accept'', (''ACCEPT'', ''x''))]\<rparr>)
     = Inr (Returned True) \<and>
   cid_eq \<lparr>store = [(''accept'', (''Accept'', ''x'')), (''host'', (''Host'', ''h''))]\<rparr> (PyInt 3)
     = Inr NotImplemented"
proof -
  let ?a = "\<lparr>store = [(''accept'', (''Accept'', ''x'')), (''host'', (''Host'', ''h''))]\<rparr>"
  let ?b = "\<lparr>store = [(''host'', (''HOST'', ''h'')), (''accept'', (''ACCEPT'', ''x''))]\<rparr>"
  have ia: "cid_inv ?a" by code_simp
  have ib: "cid_inv ?b" by code_simp
  have nm: "\<not> is_Mapping (PyInt 3 :: string pyvalue)" by simp
  have sets: "set (lower_items ?a) = set (lower_items ?b)"
    by (auto simp: lower_items_def)
  from cid_eq_folded_mapping[OF ia ib, of "PyInt 3"] sets nm ia ib
  show ?thesis by simp
qed

lemma cid_copy_inv: "cid_inv self \<Longrightarrow> cid_copy self = Inr \<lparr>store = store self\<rparr>"
  using set_all_rebuild[of "store self" "[]"]
  by (simp add: cid_copy_def cid_init_def dict_values_def cid_inv_def)

lemma cid_eq_self: "cid_inv a \<Longrightarrow> cid_inv b \<Longrightarrow> store a = store b \<Longrightarrow> cid_eq a (PyCID b) = Inr (Returned True)"
  by (simp add: cid_eq_inv lower_items_def)

text \<open>
  Claim C8. \<^verbatim>\<open>copy()\<close> returns a new object that is equal to the original under
  \<^verbatim>\<open>__eq__\<close> and has the same items, with the recorded casings, in the same order. The
  original and every other object are as before, and a later \<^verbatim>\<open>m[key] = v\<close> or
  \<^verbatim>\<open>del m[key]\<close> on the copy or on the original leaves the other one unchanged.
\<close>

theorem copy_independent:
  assumes "allocated h r" and "cid_inv (h ! r)"
  shows
    "\<exists>r' h'. h_copy h r = Inr (r', h') \<and>
       r' \<noteq> r \<and> \<not> allocated h r' \<and> allocated h' r' \<and> allocated h' r \<and>
       (\<forall>q. allocated h q \<longrightarrow> h' ! q = h ! q) \<and>
       store (h' ! r') = store (h ! r) \<and>
       cid_iter (h' ! r') = cid_iter (h ! r) \<and>
       cid_eq (h' ! r') (PyCID (h' ! r)) = Inr (Returned True) \<and>
       cid_eq (h' ! r) (PyCID (h' ! r')) = Inr (Returned True) \<and>
       (\<forall>key v. h_setitem h' r' key v ! r = h ! r \<and> h_setitem h' r key v ! r' = h' ! r') \<and>
       (\<forall>key h''. h_delitem h' r' key = Inr h'' \<longrightarrow> h'' ! r = h ! r) \<and>
       (\<forall>key h''. h_delitem h' r key = Inr h'' \<longrightarrow> h'' ! r' = h' ! r')"
proof -
  let ?c = "\<lparr>store = store (h ! r)\<rparr>"
  let ?r' = "length h"
  let ?h' = "h @ [?c]"
  from assms(1) have lt: "r < length h" by (simp add: allocated_def)
  have copy: "h_copy h r = Inr (?r', ?h')"
    using assms(2) by (simp add: h_copy_def cid_copy_inv alloc_def)
  have ne: "?r' \<noteq> r" using lt by simp
  have old: "?h' ! r = h ! r" using lt by (simp add: nth_append)
  have new: "?h' ! ?r' = ?c" by simp
  have invc: "cid_inv ?c" using assms(2) by (simp add: cid_inv_def)
  have frame: "\<forall>q. allocated h q \<longrightarrow> ?h' ! q = h ! q"
    by (simp add: allocated_def nth_append)
  have eq1: "cid_eq (?h' ! ?r') (PyCID (?h' ! r)) = Inr (Returned True)"
    unfolding old new using invc assms(2) by (intro cid_eq_self) simp_all
  have eq2: "cid_eq (?h' ! r) (PyCID (?h' ! ?r')) = Inr (Returned True)"
    unfolding old new using invc assms(2) by (intro cid_eq_self) simp_all
  have set: "\<forall>key v. h_setitem ?h' ?r' key v ! r = h ! r \<and> h_setitem ?h' r key v ! ?r' = ?h' ! ?r'"
    using lt by (simp add: h_setitem_def nth_append)
  have del1: "\<forall>key h''. h_delitem ?h' ?r' key = Inr h'' \<longrightarrow> h'' ! r = h ! r"
    using lt by (auto simp: h_delitem_def nth_append split: sum.splits)
  have del2: "\<forall>key h''. h_delitem ?h' r key = Inr h'' \<longrightarrow> h'' ! ?r' = ?h' ! ?r'"
    using lt by (auto simp: h_delitem_def nth_append split: sum.splits)
  show ?thesis
  proof (intro exI[of _ ?r'] exI[of _ ?h'] conjI)
    show "h_copy h r = Inr (?r', ?h')" by (rule copy)
    show "?r' \<noteq> r" by (rule ne)
    show "\<not> allocated h ?r'" by (simp add: allocated_def)
    show "allocated ?h' ?r'" by (simp add: allocated_def)
    show "allocated ?h' r" using lt by (simp add: allocated_def)
    show "\<forall>q. allocated h q \<longrightarrow> ?h' ! q = h ! q" by (rule frame)
    show "store (?h' ! ?r') = store (h ! r)" by simp
    show "cid_iter (?h' ! ?r') = cid_iter (h ! r)" by (simp add: cid_iter_store)
    show "cid_eq (?h' ! ?r') (PyCID (?h' ! r)) = Inr (Returned True)" by (rule eq1)
    show "cid_eq (?h' ! r) (PyCID (?h' ! ?r')) = Inr (Returned True)" by (rule eq2)
    show "\<forall>key v. h_setitem ?h' ?r' key v ! r = h ! r \<and> h_setitem ?h' r key v ! ?r' = ?h' ! ?r'"
      by (rule set)
    show "\<forall>key h''. h_delitem ?h' ?r' key = Inr h'' \<longrightarrow> h'' ! r = h ! r" by (rule del1)
    show "\<forall>key h''. h_delitem ?h' r key = Inr h'' \<longrightarrow> h'' ! ?r' = ?h' ! ?r'" by (rule del2)
  qed
qed

theorem copy_independent_witness:
  "allocated [\<lparr>store = [(''accept'', (''Accept'', ''x''))]\<rparr>] 0 \<and>
   cid_inv ([\<lparr>store = [(''accept'', (''Accept'', ''x''))]\<rparr>] ! 0) \<and>
   (\<exists>r' h'. h_copy [\<lparr>store = [(''accept'', (''Accept'', ''x''))]\<rparr>] 0 = Inr (r', h') \<and>
      r' \<noteq> 0 \<and>
      store (h' ! r') = [(''accept'', (''Accept'', ''x''))] \<and>
      h_setitem h' r' ''ACCEPT'' ''y'' ! 0 = \<lparr>store = [(''accept'', (''Accept'', ''x''))]\<rparr> \<and>
      h_setitem h' 0 ''ACCEPT'' ''y'' ! r' = h' ! r')"
proof -
  let ?h = "[\<lparr>store = [(''accept'', (''Accept'', ''x''))]\<rparr>]"
  have a: "allocated ?h 0" by (simp add: allocated_def)
  have i: "cid_inv (?h ! 0)" by code_simp
  from copy_independent[OF a i] a i show ?thesis by auto
qed

section \<open>Properties of \<^verbatim>\<open>NetworkTraffic\<close>\<close>

lemma nt_add_Traffic:
  "nt_add h a (Traffic b) =
     Returned (length h, h @ [\<lparr>upload = upload (h ! a) + upload (h ! b),
                               download = download (h ! a) + download (h ! b)\<rparr>])"
  by (simp add: nt_add_def nt_init_def alloc_def)

lemma traffic_update_both:
  "(r :: NetworkTraffic)\<lparr>upload := x, download := y\<rparr> = \<lparr>upload = x, download = y\<rparr>"
  by (cases r) simp

lemma nt_iadd_Traffic:
  "a < length h \<Longrightarrow>
   nt_iadd h a (Traffic b) =
     Returned (a, h[a := \<lparr>upload = upload (h ! a) + upload (h ! b),
                          download = download (h ! a) + download (h ! b)\<rparr>])"
  by (cases "a = b") (simp_all add: nt_iadd_def Let_def traffic_update_both)

text \<open>
  Claim C3. \<^verbatim>\<open>a + b\<close> returns a new \<^verbatim>\<open>NetworkTraffic\<close> whose fields are the sums of
  the fields of \<open>a\<close> and \<open>b\<close>, and changes neither operand; \<^verbatim>\<open>a += b\<close> adds the fields of
  \<open>b\<close> to \<open>a\<close> in place and returns \<open>a\<close>; afterwards \<open>a\<close> holds what \<^verbatim>\<open>a + b\<close> computes
  from the state before. \<^verbatim>\<open>NetworkTraffic(100, 200) + NetworkTraffic(50, 150)\<close> has the
  fields \<open>(150, 350)\<close>, and so has \<^verbatim>\<open>NetworkTraffic(0, 0)\<close> after \<^verbatim>\<open>+=\<close> with
  \<open>(100, 200)\<close> and then \<open>(50, 150)\<close>.
\<close>

theorem add_iadd_agree:
  assumes "allocated h a" and "allocated h b"
  shows
    "(\<exists>c h'. nt_add h a (Traffic b) = Returned (c, h') \<and>
        \<not> allocated h c \<and> allocated h' c \<and>
        (\<forall>q. allocated h q \<longrightarrow> h' ! q = h ! q) \<and>
        upload (h' ! c) = upload (h ! a) + upload (h ! b) \<and>
        download (h' ! c) = download (h ! a) + download (h ! b) \<and>
        (\<exists>h2. nt_iadd h a (Traffic b) = Returned (a, h2) \<and>
           length h2 = length h \<and>
           (\<forall>q. q \<noteq> a \<longrightarrow> h2 ! q = h ! q) \<and>
           upload (h2 ! a) = upload (h ! a) + upload (h ! b) \<and>
           download (h2 ! a) = download (h ! a) + download (h ! b) \<and>
           h2 ! a = h' ! c)) \<and>
     nt_init [] 100 200 = (0, [\<lparr>upload = 100, download = 200\<rparr>]) \<and>
     nt_init [\<lparr>upload = 100, download = 200\<rparr>] 50 150
       = (1, [\<lparr>upload = 100, download = 200\<rparr>, \<lparr>upload = 50, download = 150\<rparr>]) \<and>
     nt_add [\<lparr>upload = 100, download = 200\<rparr>, \<lparr>upload = 50, download = 150\<rparr>] 0 (Traffic 1)
       = Returned (2, [\<lparr>upload = 100, download = 200\<rparr>, \<lparr>upload = 50, download = 150\<rparr>,
                       \<lparr>upload = 150, download = 350\<rparr>]) \<and>
     nt_iadd [\<lparr>upload = 0, download = 0\<rparr>, \<lparr>upload = 100, download = 200\<rparr>,
              \<lparr>upload = 50, download = 150\<rparr>] 0 (Traffic 1)
       = Returned (0, [\<lparr>upload = 100, download = 200\<rparr>, \<lparr>upload = 100, download = 200\<rparr>,
                       \<lparr>upload = 50, download = 150\<rparr>]) \<and>
     nt_iadd [\<lparr>upload = 100, download = 200\<rparr>, \<lparr>upload = 100, download = 200\<rparr>,
              \<lparr>upload = 50, download = 150\<rparr>] 0 (Traffic 2)
       = Returned (0, [\<lparr>upload = 150, download = 350\<rparr>, \<lparr>upload = 100, download = 200\<rparr>,
                       \<lparr>upload = 50, download = 150\<rparr>])"
proof -
  let ?s = "\<lparr>upload = upload (h ! a) + upload (h ! b),
             download = download (h ! a) + download (h ! b)\<rparr>"
  from assms have lt: "a < length h" "b < length h" by (simp_all add: allocated_def)
  have general: "\<exists>c h'. nt_add h a (Traffic b) = Returned (c, h') \<and>
        \<not> allocated h c \<and> allocated h' c \<and>
        (\<forall>q. allocated h q \<longrightarrow> h' ! q = h ! q) \<and>
        upload (h' ! c) = upload (h ! a) + upload (h ! b) \<and>
        download (h' ! c) = download (h ! a) + download (h ! b) \<and>
        (\<exists>h2. nt_iadd h a (Traffic b) = Returned (a, h2) \<and>
           length h2 = length h \<and>
           (\<forall>q. q \<noteq> a \<longrightarrow> h2 ! q = h ! q) \<and>
           upload (h2 ! a) = upload (h ! a) + upload (h ! b) \<and>
           download (h2 ! a) = download (h ! a) + download (h ! b) \<and>
           h2 ! a = h' ! c)"
  proof -
    have add: "nt_add h a (Traffic b) = Returned (length h, h @ [?s])" by (rule nt_add_Traffic)
    have iadd: "nt_iadd h a (Traffic b) = Returned (a, h[a := ?s])"
      using lt(1) by (rule nt_iadd_Traffic)
    have frame: "\<forall>q. allocated h q \<longrightarrow> (h @ [?s]) ! q = h ! q"
      by (simp add: allocated_def nth_append)
    have inplace: "length (h[a := ?s]) = length h \<and>
           (\<forall>q. q \<noteq> a \<longrightarrow> h[a := ?s] ! q = h ! q) \<and>
           upload (h[a := ?s] ! a) = upload (h ! a) + upload (h ! b) \<and>
           download (h[a := ?s] ! a) = download (h ! a) + download (h ! b) \<and>
           h[a := ?s] ! a = (h @ [?s]) ! length h"
      using lt(1) by simp
    have fresh: "\<not> allocated h (length h) \<and> allocated (h @ [?s]) (length h) \<and>
        upload ((h @ [?s]) ! length h) = upload (h ! a) + upload (h ! b) \<and>
        download ((h @ [?s]) ! length h) = download (h ! a) + download (h ! b)"
      by (simp add: allocated_def)
    from add iadd frame inplace fresh show ?thesis by blast
  qed
  have c1: "nt_init [] 100 200 = (0, [\<lparr>upload = 100, download = 200\<rparr>])"
    by (simp add: nt_init_def alloc_def)
  have c2: "nt_init [\<lparr>upload = 100, download = 200\<rparr>] 50 150
       = (1, [\<lparr>upload = 100, download = 200\<rparr>, \<lparr>upload = 50, download = 150\<rparr>])"
    by (simp add: nt_init_def alloc_def)
  have c3: "nt_add [\<lparr>upload = 100, download = 200\<rparr>, \<lparr>upload = 50, download = 150\<rparr>] 0 (Traffic 1)
       = Returned (2, [\<lparr>upload = 100, download = 200\<rparr>, \<lparr>upload = 50, download = 150\<rparr>,
                       \<lparr>upload = 150, download = 350\<rparr>])"
    by (simp add: nt_add_Traffic)
  have c4: "nt_iadd [\<lparr>upload = 0, download = 0\<rparr>, \<lparr>upload = 100, download = 200\<rparr>,
              \<lparr>upload = 50, download = 150\<rparr>] 0 (Traffic 1)
       = Returned (0, [\<lparr>upload = 100, download = 200\<rparr>, \<lparr>upload = 100, download = 200\<rparr>,
                       \<lparr>upload = 50, download = 150\<rparr>])"
    by (simp add: nt_iadd_Traffic)
  have c5: "nt_iadd [\<lparr>upload = 100, download = 200\<rparr>, \<lparr>upload = 100, download = 200\<rparr>,
              \<lparr>upload = 50, download = 150\<rparr>] 0 (Traffic 2)
       = Returned (0, [\<lparr>upload = 150, download = 350\<rparr>, \<lparr>upload = 100, download = 200\<rparr>,
                       \<lparr>upload = 50, download = 150\<rparr>])"
    by (simp add: nt_iadd_Traffic)
  from general c1 c2 c3 c4 c5 show ?thesis by blast
qed

theorem add_iadd_agree_witness:
  "allocated [\<lparr>upload = 7, download = 9\<rparr>] 0 \<and>
   (\<exists>c h'. nt_add [\<lparr>upload = 7, download = 9\<rparr>] 0 (Traffic 0) = Returned (c, h') \<and>
      upload (h' ! c) = 14 \<and> download (h' ! c) = 18 \<and> h' ! 0 = \<lparr>upload = 7, download = 9\<rparr> \<and>
      (\<exists>h2. nt_iadd [\<lparr>upload = 7, download = 9\<rparr>] 0 (Traffic 0) = Returned (0, h2) \<and>
         h2 ! 0 = h' ! c))"
proof -
  have a: "allocated [\<lparr>upload = 7, download = 9\<rparr>] 0" by (simp add: allocated_def)
  from add_iadd_agree[OF a a] a show ?thesis by auto
qed

text \<open>
  Claim C9. \<^verbatim>\<open>NetworkTraffic\<close> values form a commutative monoid under \<^verbatim>\<open>+\<close>, compared
  field by field: \<^verbatim>\<open>a + (b + c)\<close> and \<^verbatim>\<open>(a + b) + c\<close> have the same fields, so have
  \<^verbatim>\<open>a + b\<close> and \<^verbatim>\<open>b + a\<close>, and \<^verbatim>\<open>a + NetworkTraffic(0, 0)\<close> has the fields of \<open>a\<close>.
\<close>

theorem traffic_commutative_monoid:
  assumes "allocated h a" and "allocated h b" and "allocated h c"
  shows
    "(\<exists>r1 h1 r2 h2 s1 g1 s2 g2.
        nt_add h b (Traffic c) = Returned (r1, h1) \<and> nt_add h1 a (Traffic r1) = Returned (r2, h2) \<and>
        nt_add h a (Traffic b) = Returned (s1, g1) \<and> nt_add g1 s1 (Traffic c) = Returned (s2, g2) \<and>
        h2 ! r2 = g2 ! s2) \<and>
     (\<exists>r h1 s g1.
        nt_add h a (Traffic b) = Returned (r, h1) \<and> nt_add h b (Traffic a) = Returned (s, g1) \<and>
        h1 ! r = g1 ! s) \<and>
     (\<exists>z h0 r h1.
        nt_init h 0 0 = (z, h0) \<and> nt_add h0 a (Traffic z) = Returned (r, h1) \<and>
        h1 ! r = h ! a)"
proof -
  from assms have lt: "a < length h" "b < length h" "c < length h" by (simp_all add: allocated_def)
  let ?bc = "\<lparr>upload = upload (h ! b) + upload (h ! c), download = download (h ! b) + download (h ! c)\<rparr>"
  let ?ab = "\<lparr>upload = upload (h ! a) + upload (h ! b), download = download (h ! a) + download (h ! b)\<rparr>"
  let ?ba = "\<lparr>upload = upload (h ! b) + upload (h ! a), download = download (h ! b) + download (h ! a)\<rparr>"
  let ?z = "\<lparr>upload = 0, download = 0\<rparr>"
  have assoc: "\<exists>r1 h1 r2 h2 s1 g1 s2 g2.
        nt_add h b (Traffic c) = Returned (r1, h1) \<and> nt_add h1 a (Traffic r1) = Returned (r2, h2) \<and>
        nt_add h a (Traffic b) = Returned (s1, g1) \<and> nt_add g1 s1 (Traffic c) = Returned (s2, g2) \<and>
        h2 ! r2 = g2 ! s2"
  proof -
    have 1: "nt_add h b (Traffic c) = Returned (length h, h @ [?bc])" by (rule nt_add_Traffic)
    have 2: "nt_add (h @ [?bc]) a (Traffic (length h)) =
        Returned (Suc (length h), h @ [?bc] @
          [\<lparr>upload = upload (h ! a) + (upload (h ! b) + upload (h ! c)),
            download = download (h ! a) + (download (h ! b) + download (h ! c))\<rparr>])"
      using lt(1) by (simp add: nt_add_Traffic nth_append)
    have 3: "nt_add h a (Traffic b) = Returned (length h, h @ [?ab])" by (rule nt_add_Traffic)
    have 4: "nt_add (h @ [?ab]) (length h) (Traffic c) =
        Returned (Suc (length h), h @ [?ab] @
          [\<lparr>upload = upload (h ! a) + upload (h ! b) + upload (h ! c),
            download = download (h ! a) + download (h ! b) + download (h ! c)\<rparr>])"
      using lt(3) by (simp add: nt_add_Traffic nth_append)
    have 5: "(h @ [?bc] @
          [\<lparr>upload = upload (h ! a) + (upload (h ! b) + upload (h ! c)),
            download = download (h ! a) + (download (h ! b) + download (h ! c))\<rparr>]) ! Suc (length h)
        = (h @ [?ab] @
          [\<lparr>upload = upload (h ! a) + upload (h ! b) + upload (h ! c),
            download = download (h ! a) + download (h ! b) + download (h ! c)\<rparr>]) ! Suc (length h)"
      by (simp add: nth_append)
    from 1 2 3 4 5 show ?thesis by blast
  qed
  have comm: "\<exists>r h1 s g1.
        nt_add h a (Traffic b) = Returned (r, h1) \<and> nt_add h b (Traffic a) = Returned (s, g1) \<and>
        h1 ! r = g1 ! s"
  proof -
    have 1: "nt_add h a (Traffic b) = Returned (length h, h @ [?ab])" by (rule nt_add_Traffic)
    have 2: "nt_add h b (Traffic a) = Returned (length h, h @ [?ba])" by (rule nt_add_Traffic)
    have 3: "(h @ [?ab]) ! length h = (h @ [?ba]) ! length h" by (simp add: add.commute)
    from 1 2 3 show ?thesis by blast
  qed
  have unit: "\<exists>z h0 r h1.
        nt_init h 0 0 = (z, h0) \<and> nt_add h0 a (Traffic z) = Returned (r, h1) \<and>
        h1 ! r = h ! a"
  proof -
    have 1: "nt_init h 0 0 = (length h, h @ [?z])" by (simp add: nt_init_def alloc_def)
    have 2: "nt_add (h @ [?z]) a (Traffic (length h)) = Returned (Suc (length h), h @ [?z] @ [h ! a])"
      using lt(1) by (simp add: nt_add_Traffic nth_append)
    have 3: "(h @ [?z] @ [h ! a]) ! Suc (length h) = h ! a" by (simp add: nth_append)
    from 1 2 3 show ?thesis by blast
  qed
  from assoc comm unit show ?thesis by blast
qed

theorem traffic_commutative_monoid_witness:
  "allocated [\<lparr>upload = 1, download = 2\<rparr>, \<lparr>upload = 30, download = 40\<rparr>,
              \<lparr>upload = 500, download = 600\<rparr>] 0 \<and>
   allocated [\<lparr>upload = 1, download = 2\<rparr>, \<lparr>upload = 30, download = 40\<rparr>,
              \<lparr>upload = 500, download = 600\<rparr>] 1 \<and>
   allocated [\<lparr>upload = 1, download = 2\<rparr>, \<lparr>upload = 30, download = 40\<rparr>,
              \<lparr>upload = 500, download = 600\<rparr>] 2 \<and>
   (\<exists>r h1 s g1.
      nt_add [\<lparr>upload = 1, download = 2\<rparr>, \<lparr>upload = 30, download = 40\<rparr>,
              \<lparr>upload = 500, download = 600\<rparr>] 0 (Traffic 1) = Returned (r, h1) \<and>
      nt_add [\<lparr>upload = 1, download = 2\<rparr>, \<lparr>upload = 30, download = 40\<rparr>,
              \<lparr>upload = 500, download = 600\<rparr>] 1 (Traffic 0) = Returned (s, g1) \<and>
      h1 ! r = g1 ! s \<and> h1 ! r = \<lparr>upload = 31, download = 42\<rparr>)"
proof -
  let ?h = "[\<lparr>upload = 1, download = 2\<rparr>, \<lparr>upload = 30, download = 40\<rparr>,
             \<lparr>upload = 500, download = 600\<rparr>]"
  have a: "allocated ?h 0" "allocated ?h 1" "allocated ?h 2" by (simp_all add: allocated_def)
  from traffic_commutative_monoid[OF a] a show ?thesis
    by (auto simp: nt_add_Traffic)
qed

section \<open>Properties of \<^verbatim>\<open>LookupDict\<close>\<close>




text \<open>
  Claim C10, as stated: after \<^verbatim>\<open>table[key] = v\<close>, \<^verbatim>\<open>table[key]\<close> and \<^verbatim>\<open>table.get(key)\<close>
  return the default \<^verbatim>\<open>None\<close>. This fails for the key \<^verbatim>\<open>"name"\<close> on a table constructed
  with a name: the lookup still finds the attribute.
\<close>

theorem lookup_item_assignment_counterexample:
  "\<not> (ld_getitem (ld_setitem (ld_init (Some ''status'')) ''name'' (Some ''x'')) ''name'' = None \<and>
      ld_get (ld_setitem (ld_init (Some ''status'')) ''name'' (Some ''x'')) ''name'' None = None)"
  by (simp add: ld_getitem_def ld_get_def ld_setitem_def ld_init_def dict_get_def)

text \<open>
  Claim C10, amended. Lookup reads the attribute namespace and not the inherited
  dictionary: on a table constructed with name \<open>n\<close>, \<^verbatim>\<open>table["name"]\<close> and
  \<^verbatim>\<open>table.get("name")\<close> return \<open>n\<close>; \<^verbatim>\<open>table[key] = v\<close> changes the result of no lookup,
  so that afterwards \<^verbatim>\<open>table[key]\<close> returns \<^verbatim>\<open>None\<close> and \<^verbatim>\<open>get(key, default)\<close> returns
  \<open>default\<close> for every key that is not an attribute (on a new table, every key but
  \<^verbatim>\<open>"name"\<close>).
\<close>

theorem lookup_reads_attributes:
  "ld_getitem (ld_init n) ''name'' = n \<and>
   ld_get (ld_init n) ''name'' d = n \<and>
   ld_getitem (ld_setitem t key v) k = ld_getitem t k \<and>
   ld_get (ld_setitem t key v) k d = ld_get t k d \<and>
   (key \<notin> fst ` set (attrs t) \<longrightarrow>
      ld_getitem (ld_setitem t key v) key = None \<and> ld_get (ld_setitem t key v) key d = d) \<and>
   (key \<noteq> ''name'' \<longrightarrow>
      ld_getitem (ld_setitem (ld_init n) key v) key = None \<and>
      ld_get (ld_setitem (ld_init n) key v) key d = d)"
  by (simp add: ld_getitem_def ld_get_def ld_setitem_def ld_init_def dict_get_def
      dict_getitem_absent)

theorem lookup_reads_attributes_witness:
  "''ok'' \<notin> fst ` set (attrs (ld_init (Some ''status''))) \<and>
   ''ok'' \<noteq> ''name'' \<and>
   ld_getitem (ld_init (Some ''status'')) ''name'' = Some ''status'' \<and>
   ld_getitem (ld_setitem (ld_init (Some ''status'')) ''ok'' (Some ''200'')) ''ok'' = None \<and>
   ld_get (ld_setitem (ld_init (Some ''status'')) ''ok'' (Some ''200'')) ''ok'' (Some ''d'') = Some ''d''"
proof -
  have a: "''ok'' \<notin> fst ` set (attrs (ld_init (Some ''status'')))" by (simp add: ld_init_def)
  have b: "''ok'' \<noteq> ''name''" by simp
  from lookup_reads_attributes[of "Some ''status''" "Some ''d''" "ld_init (Some ''status'')" "''ok''" "Some ''200''" "''ok''"] a b
  show ?thesis by blast
qed

end
